theory Spec2Isabelle
  imports Complex_Main "HOL-Library.Log_Nat" "HOL-Library.AList"
begin

section \<open>Python arithmetic used by reziser.py\<close>

text \<open>
  \<^verbatim>\<open>TARGET_SIZE / original_width\<close> is Python's true division of two ints and
  \<^verbatim>\<open>original_width * scale\<close> is an int times a float: both produce IEEE-754 binary64
  values, rounded to nearest, ties to even. A finite float is represented by the rational it
  denotes. The exponent range is not bounded here, which is exact for every value the program
  computes from image sizes below \<open>2 ^ 31\<close> (Pillow keeps sizes in C ints).
\<close>

text \<open>\<open>expo x\<close> is the binary exponent of a positive rational: \<open>2 powi expo x \<le> x < 2 powi (expo x + 1)\<close>.\<close>

definition expo :: "rat \<Rightarrow> int" where
  "expo x = (let (p, q) = quotient_of x; k = bitlen p - bitlen q
             in if 2 powi k \<le> x then k else k - 1)"

definition round_half_even :: "rat \<Rightarrow> int" where
  "round_half_even y = (let f = \<lfloor>y\<rfloor>; r = y - of_int f
     in if r < 1/2 then f else if 1/2 < r then f + 1 else if even f then f else f + 1)"

text \<open>The binary64 value nearest to a non-negative rational: a 53-bit significand.\<close>

definition fl :: "rat \<Rightarrow> rat" where
  "fl x = (if x \<le> 0 then 0
           else let e = expo x - 52 in of_int (round_half_even (x / 2 powi e)) * 2 powi e)"

datatype libcall =
    Resize "int \<times> int"
  | New string
  | Convert string
  | Paste
  | Save "string list"

datatype error =
    ZeroDivisionError
  | OpenError
  | LibraryError libcall

text \<open>\<^verbatim>\<open>a / b\<close> on ints.\<close>

definition truediv :: "int \<Rightarrow> int \<Rightarrow> error + rat" where
  "truediv a b = (if b = 0 then Inl ZeroDivisionError else Inr (fl (of_int a / of_int b)))"

text \<open>\<^verbatim>\<open>n * x\<close> with \<open>n\<close> an int and \<open>x\<close> a float: \<open>n\<close> is converted first.\<close>

definition mul_int_float :: "int \<Rightarrow> rat \<Rightarrow> rat" where
  "mul_int_float n x = fl (fl (of_int n) * x)"

text \<open>\<^verbatim>\<open>int(x)\<close> on a float truncates towards zero.\<close>

definition int_of_float :: "rat \<Rightarrow> int" where
  "int_of_float x = (if 0 \<le> x then \<lfloor>x\<rfloor> else \<lceil>x\<rceil>)"

section \<open>Images, the file system and the console\<close>

definition TARGET_SIZE :: int where
  "TARGET_SIZE = 3000"

text \<open>A Python set; the list fixes one iteration order for the loops of \<open>process_folder\<close>.\<close>

definition SUPPORTED_FORMATS :: "string list" where
  "SUPPORTED_FORMATS = [''.jpg'', ''.jpeg'', ''.png'', ''.gif'', ''.bmp'', ''.tiff'', ''.webp'']"

text \<open>What the program reads of a decoded image: \<^verbatim>\<open>img.size\<close>, \<^verbatim>\<open>img.mode\<close> and whether
  \<^verbatim>\<open>'transparency' in img.info\<close>.\<close>

record image =
  size_w :: int
  size_h :: int
  mode :: string
  info_transparency :: bool

text \<open>A path is the list of its components. A file either holds an image, given by what its
  header declares, or is one that no plugin of \<^verbatim>\<open>Image.open\<close> identifies.\<close>

type_synonym path = "string list"

datatype node = Dir | File "image option"

type_synonym filesystem = "(path \<times> node) list"

datatype message =
    Resized path path
  | ErrorProcessing path error
  | FileNotFound path
  | UnsupportedFormat path
  | FolderNotFound path
  | NoSupportedImages path
  | Found nat
  | Summary nat nat

record state =
  files :: filesystem
  stdout :: "message list"

definition isfile :: "filesystem \<Rightarrow> path \<Rightarrow> bool" where
  "isfile fs p = (case map_of fs p of Some (File c) \<Rightarrow> True | _ \<Rightarrow> False)"

definition isdir :: "filesystem \<Rightarrow> path \<Rightarrow> bool" where
  "isdir fs p = (map_of fs p = Some Dir)"

definition print :: "message \<Rightarrow> state \<Rightarrow> state" where
  "print m st = st\<lparr>stdout := stdout st @ [m]\<rparr>"

section \<open>pathlib: name, suffix, stem, glob\<close>

definition name :: "path \<Rightarrow> string" where
  "name p = (if p = [] then [] else last p)"

text \<open>\<^verbatim>\<open>s.rfind('.')\<close>: the highest index of a dot, or -1.\<close>

definition rfind_dot :: "string \<Rightarrow> int" where
  "rfind_dot s = (if CHR ''.'' \<in> set s
     then int (length s) - 1 - int (length (takeWhile (\<lambda>c. c \<noteq> CHR ''.'') (rev s)))
     else - 1)"

definition suffix :: "path \<Rightarrow> string" where
  "suffix p = (let n = name p; i = rfind_dot n
     in if 0 < i \<and> i < int (length n) - 1 then drop (nat i) n else [])"

definition stem :: "path \<Rightarrow> string" where
  "stem p = (let n = name p; i = rfind_dot n
     in if 0 < i \<and> i < int (length n) - 1 then take (nat i) n else n)"

definition lower_char :: "char \<Rightarrow> char" where
  "lower_char c = (let n = (of_char c :: nat) in if 65 \<le> n \<and> n \<le> 90 then char_of (n + 32) else c)"

definition lower :: "string \<Rightarrow> string" where
  "lower s = map lower_char s"

definition endswith :: "string \<Rightarrow> string \<Rightarrow> bool" where
  "endswith s ext = (length ext \<le> length s \<and> drop (length s - length ext) s = ext)"

text \<open>\<^verbatim>\<open>folder.glob("*" + ext)\<close> on a POSIX file system: every direct child, file or
  directory, whose name ends with \<open>ext\<close>; the match is case-sensitive.\<close>

definition glob :: "filesystem \<Rightarrow> path \<Rightarrow> string \<Rightarrow> path list" where
  "glob fs folder ext =
     filter (\<lambda>p. p \<noteq> [] \<and> butlast p = folder \<and> endswith (last p) ext) (map fst fs)"

text \<open>\<^verbatim>\<open>folder.rglob("*" + ext)\<close>: the same match on every entry below the folder.\<close>

definition rglob :: "filesystem \<Rightarrow> path \<Rightarrow> string \<Rightarrow> path list" where
  "rglob fs folder ext =
     filter (\<lambda>p. length folder < length p \<and> take (length folder) p = folder
                 \<and> endswith (last p) ext) (map fst fs)"

section \<open>resize_image\<close>

text \<open>Lines 44 to 48: the scale factor and the scaled dimensions.\<close>

definition scaled_size :: "int \<Rightarrow> int \<Rightarrow> error + int \<times> int" where
  "scaled_size original_width original_height =
     (case truediv TARGET_SIZE original_width of
        Inl e \<Rightarrow> Inl e
      | Inr a \<Rightarrow>
          (case truediv TARGET_SIZE original_height of
             Inl e \<Rightarrow> Inl e
           | Inr b \<Rightarrow>
               (let scale = min a b;
                    new_width = int_of_float (mul_int_float original_width scale);
                    new_height = int_of_float (mul_int_float original_height scale)
                in Inr (new_width, new_height))))"

text \<open>The canvas \<^verbatim>\<open>new_img\<close> after the paste: its mode, size and fill colour, and the mode,
  size and position of the pasted \<^verbatim>\<open>resized_img\<close>.\<close>

record canvas =
  cv_mode :: string
  cv_size :: "int \<times> int"
  cv_fill :: "int list"
  pasted_mode :: string
  pasted_size :: "int \<times> int"
  offset :: "int \<times> int"

definition use_transparent :: "image \<Rightarrow> bool" where
  "use_transparent img =
     (mode img = ''RGBA'' \<or> mode img = ''LA'' \<or> (mode img = ''P'' \<and> info_transparency img))"

text \<open>Lines 41 to 73. Every call into Pillow may raise; \<open>raises\<close> says which do.\<close>

definition compose :: "(libcall \<Rightarrow> bool) \<Rightarrow> image \<Rightarrow> error + canvas" where
  "compose raises img =
     (case scaled_size (size_w img) (size_h img) of
        Inl e \<Rightarrow> Inl e
      | Inr (new_width, new_height) \<Rightarrow>
          if raises (Resize (new_width, new_height))
          then Inl (LibraryError (Resize (new_width, new_height)))
          else
            let new_mode = (if use_transparent img then ''RGBA'' else ''RGB'');
                fill = (if use_transparent img then [0, 0, 0, 0] else [0, 0, 0])
            in if raises (New new_mode) then Inl (LibraryError (New new_mode))
               else if mode img \<noteq> new_mode \<and> raises (Convert new_mode)
               then Inl (LibraryError (Convert new_mode))
               else
                 let x_offset = (TARGET_SIZE - new_width) div 2;
                     y_offset = (TARGET_SIZE - new_height) div 2
                 in if raises Paste then Inl (LibraryError Paste)
                    else Inr \<lparr>cv_mode = new_mode, cv_size = (TARGET_SIZE, TARGET_SIZE),
                              cv_fill = fill, pasted_mode = new_mode,
                              pasted_size = (new_width, new_height),
                              offset = (x_offset, y_offset)\<rparr>)"

definition default_output :: "path \<Rightarrow> path" where
  "default_output input_path = butlast input_path @ [stem input_path @ ''_3000x3000.png'']"

text \<open>The PNG written by \<^verbatim>\<open>new_img.save\<close>, as a later \<^verbatim>\<open>Image.open\<close> reads it.\<close>

definition saved :: "canvas \<Rightarrow> image" where
  "saved cv = \<lparr>size_w = fst (cv_size cv), size_h = snd (cv_size cv), mode = cv_mode cv,
               info_transparency = False\<rparr>"

text \<open>Line 38, \<^verbatim>\<open>Image.open\<close>. Modelled from the library: it raises for a path that is not a
  file, for a file that no plugin identifies, and for a file whose header declares a width
  or a height that is not positive (every plugin's result is refused with
  \<^verbatim>\<open>size[0] <= 0 or size[1] <= 0\<close>), so the program never holds such an image.\<close>

definition image_open :: "filesystem \<Rightarrow> path \<Rightarrow> error + image" where
  "image_open fs input_path =
     (case map_of fs input_path of
        Some (File (Some img)) \<Rightarrow>
          if size_w img \<le> 0 \<or> size_h img \<le> 0 then Inl OpenError else Inr img
      | _ \<Rightarrow> Inl OpenError)"

text \<open>The body of the \<^verbatim>\<open>try\<close> block: the canvas and the path it is saved to.\<close>

definition try_resize ::
  "(libcall \<Rightarrow> bool) \<Rightarrow> filesystem \<Rightarrow> path \<Rightarrow> path option \<Rightarrow> error + canvas \<times> path" where
  "try_resize raises fs input_path output_path =
     (case image_open fs input_path of
        Inl e \<Rightarrow> Inl e
      | Inr img \<Rightarrow>
          (case compose raises img of
             Inl e \<Rightarrow> Inl e
           | Inr cv \<Rightarrow>
               let out = (case output_path of None \<Rightarrow> default_output input_path | Some p \<Rightarrow> p)
               in if raises (Save out) \<or> isdir fs out then Inl (LibraryError (Save out))
                  else Inr (cv, out)))"

text \<open>Modelled from the library: in an environment without faults the one call that raises is
  \<^verbatim>\<open>resize\<close> with a requested side below 1 (ValueError, height and width must be > 0).\<close>

definition pillow_raises :: "libcall \<Rightarrow> bool" where
  "pillow_raises c = (case c of Resize (w, h) \<Rightarrow> w < 1 \<or> h < 1 | _ \<Rightarrow> False)"

definition resize_image ::
  "(libcall \<Rightarrow> bool) \<Rightarrow> state \<Rightarrow> path \<Rightarrow> path option \<Rightarrow> bool \<times> state" where
  "resize_image raises st input_path output_path =
     (case try_resize raises (files st) input_path output_path of
        Inl e \<Rightarrow> (False, print (ErrorProcessing input_path e) st)
      | Inr (cv, out) \<Rightarrow>
          (True, print (Resized input_path out)
                   (st\<lparr>files := AList.update out (File (Some (saved cv))) (files st)\<rparr>)))"

section \<open>The drivers\<close>

definition is_supported_image :: "path \<Rightarrow> bool" where
  "is_supported_image file_path = (lower (suffix file_path) \<in> set SUPPORTED_FORMATS)"

definition process_file :: "(libcall \<Rightarrow> bool) \<Rightarrow> state \<Rightarrow> path \<Rightarrow> bool \<times> state" where
  "process_file raises st file_path =
     (if \<not> isfile (files st) file_path then (False, print (FileNotFound file_path) st)
      else if \<not> is_supported_image file_path
      then (False, print (UnsupportedFormat file_path) st)
      else resize_image raises st file_path None)"

text \<open>The loop of \<open>process_files\<close>, with its two counters.\<close>

fun process_files_loop ::
  "(libcall \<Rightarrow> bool) \<Rightarrow> state \<Rightarrow> path list \<Rightarrow> nat \<times> nat \<Rightarrow> (nat \<times> nat) \<times> state" where
  "process_files_loop raises st [] (success_count, failure_count) =
     ((success_count, failure_count), st)"
| "process_files_loop raises st (file_path # rest) (success_count, failure_count) =
     (case process_file raises st file_path of
        (True, st') \<Rightarrow> process_files_loop raises st' rest (success_count + 1, failure_count)
      | (False, st') \<Rightarrow> process_files_loop raises st' rest (success_count, failure_count + 1))"

definition process_files ::
  "(libcall \<Rightarrow> bool) \<Rightarrow> state \<Rightarrow> path list \<Rightarrow> (nat \<times> nat) \<times> state" where
  "process_files raises st file_paths = process_files_loop raises st file_paths (0, 0)"

text \<open>The loop of \<open>process_folder\<close>: no \<open>isfile\<close> and no extension check.\<close>

fun process_folder_loop ::
  "(libcall \<Rightarrow> bool) \<Rightarrow> state \<Rightarrow> path list \<Rightarrow> nat \<times> nat \<Rightarrow> (nat \<times> nat) \<times> state" where
  "process_folder_loop raises st [] (success_count, failure_count) =
     ((success_count, failure_count), st)"
| "process_folder_loop raises st (img_file # rest) (success_count, failure_count) =
     (case resize_image raises st img_file None of
        (True, st') \<Rightarrow> process_folder_loop raises st' rest (success_count + 1, failure_count)
      | (False, st') \<Rightarrow> process_folder_loop raises st' rest (success_count, failure_count + 1))"

definition find_images :: "filesystem \<Rightarrow> path \<Rightarrow> bool \<Rightarrow> path list" where
  "find_images fs folder recursive =
     (if recursive then concat (map (rglob fs folder) SUPPORTED_FORMATS)
      else concat (map (glob fs folder) SUPPORTED_FORMATS))"

definition process_folder ::
  "(libcall \<Rightarrow> bool) \<Rightarrow> state \<Rightarrow> path \<Rightarrow> bool \<Rightarrow> (nat \<times> nat) \<times> state" where
  "process_folder raises st folder_path recursive =
     (if \<not> isdir (files st) folder_path then ((0, 0), print (FolderNotFound folder_path) st)
      else
        let image_files = find_images (files st) folder_path recursive
        in if image_files = [] then ((0, 0), print (NoSupportedImages folder_path) st)
           else process_folder_loop raises (print (Found (length image_files)) st)
                  image_files (0, 0))"

text \<open>The batch loop of \<open>main\<close> and \<open>main\<close> itself, which returns the exit code.\<close>

fun batch_loop ::
  "(libcall \<Rightarrow> bool) \<Rightarrow> state \<Rightarrow> path list \<Rightarrow> bool \<Rightarrow> nat \<times> nat \<Rightarrow> (nat \<times> nat) \<times> state" where
  "batch_loop raises st [] recursive (total_success, total_failure) =
     ((total_success, total_failure), st)"
| "batch_loop raises st (folder_path # rest) recursive (total_success, total_failure) =
     (case process_folder raises st folder_path recursive of
        ((success, failure), st') \<Rightarrow>
          batch_loop raises st' rest recursive (total_success + success, total_failure + failure))"

definition main ::
  "(libcall \<Rightarrow> bool) \<Rightarrow> state \<Rightarrow> path list \<Rightarrow> bool \<Rightarrow> bool \<Rightarrow> int \<times> state" where
  "main raises st paths batch recursive =
     (case (if batch then batch_loop raises st paths recursive (0, 0)
            else process_files raises st paths) of
        ((total_success, total_failure), st') \<Rightarrow>
          (if total_failure = 0 then 0 else 1,
           print (Summary total_success total_failure) st'))"

section \<open>The formulas of the specification, in exact arithmetic\<close>

definition spec_scale :: "int \<Rightarrow> int \<Rightarrow> rat" where
  "spec_scale w h = min (of_int TARGET_SIZE / of_int w) (of_int TARGET_SIZE / of_int h)"

definition spec_new_width :: "int \<Rightarrow> int \<Rightarrow> int" where
  "spec_new_width w h = \<lfloor>of_int w * spec_scale w h\<rfloor>"

definition spec_new_height :: "int \<Rightarrow> int \<Rightarrow> int" where
  "spec_new_height w h = \<lfloor>of_int h * spec_scale w h\<rfloor>"

text \<open>The discovery the specification describes: the files in scope whose extension is
  supported, compared case-insensitively.\<close>

definition in_scope :: "path \<Rightarrow> bool \<Rightarrow> path \<Rightarrow> bool" where
  "in_scope folder recursive p =
     (if recursive then length folder < length p \<and> take (length folder) p = folder
      else p \<noteq> [] \<and> butlast p = folder)"

definition spec_discovered :: "filesystem \<Rightarrow> path \<Rightarrow> bool \<Rightarrow> path list" where
  "spec_discovered fs folder recursive =
     filter (\<lambda>p. in_scope folder recursive p \<and> isfile fs p \<and> is_supported_image p) (map fst fs)"

section \<open>Rounding error of the float operations\<close>

text \<open>The unit roundoff of binary64.\<close>

definition unit_roundoff :: rat where
  "unit_roundoff = 1 / 2 ^ 53"

lemma bitlen_powi_bounds:
  assumes "0 < p"
  shows "(2::rat) powi (bitlen p - 1) \<le> of_int p" and "of_int p < (2::rat) powi bitlen p"
proof -
  have b: "1 \<le> bitlen p" using assms bitlen_eq_zero_iff[of p] bitlen_nonneg[of p] by linarith
  from bitlen_bounds[OF assms] have lo: "2 ^ nat (bitlen p - 1) \<le> p" and hi: "p < 2 ^ nat (bitlen p)"
    by auto
  have "(of_int (2 ^ nat (bitlen p - 1)) :: rat) \<le> of_int p" using lo by (simp only: of_int_le_iff)
  then show "(2::rat) powi (bitlen p - 1) \<le> of_int p"
    using b by (simp add: power_int_def)
  have "(of_int p :: rat) < of_int (2 ^ nat (bitlen p))" using hi by (simp only: of_int_less_iff)
  then show "of_int p < (2::rat) powi bitlen p"
    using b by (simp add: power_int_def)
qed

lemma expo_bounds:
  assumes "0 < x"
  shows "2 powi expo x \<le> x" and "x < 2 powi (expo x + 1)"
proof -
  obtain p q where pq: "quotient_of x = (p, q)" by (cases "quotient_of x")
  have q: "0 < q" using quotient_of_denom_pos[OF pq] .
  have x: "x = of_int p / of_int q" using quotient_of_div[OF pq] .
  have p: "0 < p" using assms q x by (simp add: zero_less_divide_iff)
  define k where "k = bitlen p - bitlen q"
  have e: "expo x = (if 2 powi k \<le> x then k else k - 1)"
    by (simp add: expo_def pq k_def Let_def)
  have qr: "(0::rat) < of_int q" using q by simp
  have lo: "2 powi (k - 1) \<le> x"
  proof -
    have "(2::rat) powi (k - 1) = 2 powi (bitlen p - 1) / 2 powi bitlen q"
      by (simp add: k_def power_int_diff)
    also have "\<dots> \<le> of_int p / of_int q"
      using bitlen_powi_bounds[OF p] bitlen_powi_bounds[OF q] qr p
      by (intro frac_le) (auto simp: less_imp_le)
    finally show ?thesis using x by simp
  qed
  have hi: "x < 2 powi (k + 1)"
  proof -
    have pos: "(0::rat) < 2 powi (bitlen q - 1)" by simp
    have "x = of_int p / of_int q" by (rule x)
    also have "\<dots> < 2 powi bitlen p / 2 powi (bitlen q - 1)"
      using bitlen_powi_bounds[OF p] bitlen_powi_bounds[OF q] qr pos p
      by (intro frac_less) (auto simp: less_imp_le)
    also have "\<dots> = 2 powi (k + 1)"
      by (simp add: k_def power_int_diff power_int_add)
    finally show ?thesis .
  qed
  show "2 powi expo x \<le> x" using e lo by (auto split: if_splits)
  show "x < 2 powi (expo x + 1)" using e hi by (auto split: if_splits simp: not_le)
qed

lemma round_half_even_err: "\<bar>of_int (round_half_even y) - y\<bar> \<le> 1/2"
proof -
  have "of_int \<lfloor>y\<rfloor> \<le> y" "y < of_int \<lfloor>y\<rfloor> + 1" by linarith+
  then show ?thesis
    by (auto simp: round_half_even_def Let_def abs_le_iff)
qed

lemma fl_rel_err:
  assumes "0 < x"
  shows "\<bar>fl x - x\<bar> \<le> x * unit_roundoff"
proof -
  define e where "e = expo x - 52"
  define s :: rat where "s = 2 powi e"
  have s: "0 < s" by (simp add: s_def)
  have f: "fl x = of_int (round_half_even (x / s)) * s"
    using assms by (simp add: fl_def e_def s_def Let_def)
  have "2 powi expo x = s * 2 ^ 52"
    by (simp add: s_def e_def power_int_diff)
  with expo_bounds(1)[OF assms] have sx: "s * 2 ^ 52 \<le> x" by simp
  have "\<bar>fl x - x\<bar> = \<bar>of_int (round_half_even (x / s)) - x / s\<bar> * s"
  proof -
    have "fl x - x = (of_int (round_half_even (x / s)) - x / s) * s"
      using s by (simp add: f field_simps)
    then show ?thesis using s by (simp add: abs_mult)
  qed
  also have "\<dots> \<le> (1/2) * s"
    using round_half_even_err[of "x / s"] s by (intro mult_right_mono) auto
  also have "\<dots> \<le> x * unit_roundoff"
    using sx by (simp add: field_simps unit_roundoff_def)
  finally show ?thesis .
qed

text \<open>The significand of \<open>fl x\<close> has 53 bits.\<close>

lemma significand_range:
  assumes "0 < x"
  shows "2 ^ 52 \<le> x / 2 powi (expo x - 52)" and "x / 2 powi (expo x - 52) < 2 ^ 53"
proof -
  have p: "(0::rat) < 2 powi (expo x - 52)" by simp
  have a: "(2::rat) powi expo x = 2 ^ 52 * 2 powi (expo x - 52)"
    by (simp add: power_int_diff)
  have b: "(2::rat) powi (expo x + 1) = 2 ^ 53 * 2 powi (expo x - 52)"
    by (simp add: power_int_diff power_int_add)
  show "2 ^ 52 \<le> x / 2 powi (expo x - 52)"
    using expo_bounds(1)[OF assms] p unfolding a by (simp add: pos_le_divide_eq)
  show "x / 2 powi (expo x - 52) < 2 ^ 53"
    using expo_bounds(2)[OF assms] p unfolding b by (simp add: pos_divide_less_eq)
qed

text \<open>The values Python prints for \<^verbatim>\<open>(3000/91).as_integer_ratio()\<close>,
  \<^verbatim>\<open>(91 * (3000/91)).as_integer_ratio()\<close> and \<^verbatim>\<open>(1/10).as_integer_ratio()\<close>.\<close>

lemma float_examples:
  "truediv 3000 91 = Inr (1159924354576879 / 35184372088832)"
  "mul_int_float 91 (1159924354576879 / 35184372088832) = 6597069766655999 / 2199023255552"
  "truediv 1 10 = Inr (3602879701896397 / 36028797018963968)"
  "truediv 3000 4000 = Inr (3 / 4)"
  by code_simp+

lemma fl_upper: "0 < x \<Longrightarrow> fl x \<le> x * (1 + unit_roundoff)"
  using fl_rel_err[of x] by (simp add: abs_le_iff algebra_simps)

lemma fl_lower: "0 < x \<Longrightarrow> x * (1 - unit_roundoff) \<le> fl x"
  using fl_rel_err[of x] by (simp add: abs_le_iff algebra_simps)

lemma unit_roundoff_bounds: "0 < unit_roundoff" "unit_roundoff < 1"
  by (simp_all add: unit_roundoff_def)

lemma fl_pos: "0 < x \<Longrightarrow> 0 < fl x"
proof -
  assume x: "0 < x"
  have "0 < x * (1 - unit_roundoff)" using x unit_roundoff_bounds by simp
  with fl_lower[OF x] show ?thesis by linarith
qed

lemma spec_scale_max:
  assumes "0 < w" "0 < h"
  shows "spec_scale w h = 3000 / of_int (max w h)"
  using assms by (auto simp: spec_scale_def TARGET_SIZE_def min_def max_def field_simps)

lemma float_scale_bounds:
  assumes "0 < w" "0 < h"
  defines "s \<equiv> min (fl (3000 / of_int w)) (fl (3000 / of_int h))"
  shows "spec_scale w h * (1 - unit_roundoff) \<le> s" and "s \<le> spec_scale w h * (1 + unit_roundoff)"
proof -
  define A :: rat where "A = 3000 / of_int w"
  define B :: rat where "B = 3000 / of_int h"
  have A: "0 < A" and B: "0 < B"
    using assms by (simp_all add: A_def B_def)
  have S: "spec_scale w h = min A B"
    by (simp add: spec_scale_def TARGET_SIZE_def A_def B_def)
  have s: "s = min (fl A) (fl B)" by (simp add: s_def A_def B_def)
  have pu: "0 \<le> 1 + unit_roundoff" "0 \<le> 1 - unit_roundoff" using unit_roundoff_bounds by simp_all
  have "min A B * (1 - unit_roundoff) \<le> A * (1 - unit_roundoff)" using pu by (intro mult_right_mono) auto
  then have 1: "min A B * (1 - unit_roundoff) \<le> fl A" using fl_lower[OF A] by linarith
  have "min A B * (1 - unit_roundoff) \<le> B * (1 - unit_roundoff)" using pu by (intro mult_right_mono) auto
  then have 2: "min A B * (1 - unit_roundoff) \<le> fl B" using fl_lower[OF B] by linarith
  show "spec_scale w h * (1 - unit_roundoff) \<le> s" using 1 2 unfolding S s by simp
  have 3: "min (fl A) (fl B) \<le> A * (1 + unit_roundoff)" using fl_upper[OF A] by simp
  have 4: "min (fl A) (fl B) \<le> B * (1 + unit_roundoff)" using fl_upper[OF B] by simp
  show "s \<le> spec_scale w h * (1 + unit_roundoff)"
  proof (cases "A \<le> B")
    case True
    then show ?thesis using 3 unfolding S s by (simp only: min_absorb1)
  next
    case False
    then have "min A B = B" by simp
    then show ?thesis using 4 unfolding S s by simp
  qed
qed

lemma mul_int_float_bounds:
  assumes "0 < n" "0 < lo" "lo \<le> s" "s \<le> hi"
  shows "of_int n * lo * (1 - unit_roundoff)^2 \<le> mul_int_float n s"
    and "mul_int_float n s \<le> of_int n * hi * (1 + unit_roundoff)^2"
proof -
  have n: "(0::rat) < of_int n" using assms by simp
  have s: "0 < s" using assms by linarith
  have pu: "0 < 1 + unit_roundoff" "0 < 1 - unit_roundoff" using unit_roundoff_bounds by simp_all
  have fn: "0 < fl (of_int n)" using fl_pos[OF n] .
  have p: "0 < fl (of_int n) * s" using fn s by simp
  have "of_int n * lo * (1 - unit_roundoff)^2 = (of_int n * (1 - unit_roundoff)) * lo * (1 - unit_roundoff)"
    by (simp add: power2_eq_square)
  also have "\<dots> \<le> (fl (of_int n) * s) * (1 - unit_roundoff)"
    using fl_lower[OF n] assms pu n fn by (intro mult_right_mono mult_mono) auto
  also have "\<dots> \<le> mul_int_float n s"
    unfolding mul_int_float_def using fl_lower[OF p] .
  finally show "of_int n * lo * (1 - unit_roundoff)^2 \<le> mul_int_float n s" .
  have "mul_int_float n s \<le> (fl (of_int n) * s) * (1 + unit_roundoff)"
    unfolding mul_int_float_def using fl_upper[OF p] .
  also have "\<dots> \<le> ((of_int n * (1 + unit_roundoff)) * hi) * (1 + unit_roundoff)"
    using fl_upper[OF n] assms pu n fn s by (intro mult_right_mono mult_mono) auto
  also have "\<dots> = of_int n * hi * (1 + unit_roundoff)^2"
    by (simp add: power2_eq_square)
  finally show "mul_int_float n s \<le> of_int n * hi * (1 + unit_roundoff)^2" .
qed


lemma cube_bounds: "(1 + unit_roundoff)^3 \<le> 1 + 4 * unit_roundoff" "1 - 4 * unit_roundoff \<le> (1 - unit_roundoff)^3"
  by (simp_all add: unit_roundoff_def power3_eq_cube)

lemma product_bounds:
  assumes w: "0 < w" and h: "0 < h" and n: "0 < n" and le: "n \<le> max w h"
  defines "F \<equiv> mul_int_float n (min (fl (3000 / of_int w)) (fl (3000 / of_int h)))"
  defines "X \<equiv> of_int n * spec_scale w h"
  shows "X - 12000 * unit_roundoff \<le> F" and "F \<le> X + 12000 * unit_roundoff" and "0 < X" and "X \<le> 3000"
    and "0 < F"
proof -
  have M: "(0::rat) < of_int (max w h)" using w by simp
  have S: "spec_scale w h = 3000 / of_int (max w h)" by (rule spec_scale_max[OF w h])
  have Spos: "0 < spec_scale w h" using M unfolding S by simp
  show Xpos: "0 < X" using n Spos by (simp add: X_def)
  have "of_int n \<le> (of_int (max w h) :: rat)" using le by (simp only: of_int_le_iff)
  then show X3: "X \<le> 3000" using M by (simp add: X_def S field_simps)
  have pu: "0 < 1 - unit_roundoff" "0 < 1 + unit_roundoff" using unit_roundoff_bounds by simp_all
  have lo: "0 < spec_scale w h * (1 - unit_roundoff)" using Spos pu by simp
  note sb = float_scale_bounds[OF w h]
  note mb = mul_int_float_bounds[OF n lo sb]
  have "X * (1 - 4 * unit_roundoff) \<le> X * (1 - unit_roundoff)^3"
    using Xpos cube_bounds by (intro mult_left_mono) auto
  also have "\<dots> = of_int n * (spec_scale w h * (1 - unit_roundoff)) * (1 - unit_roundoff)^2"
    by (simp add: X_def power3_eq_cube power2_eq_square)
  also have "\<dots> \<le> F" unfolding F_def by (rule mb(1))
  finally have 1: "X * (1 - 4 * unit_roundoff) \<le> F" .
  have "0 < X * (1 - 4 * unit_roundoff)" using Xpos by (simp add: unit_roundoff_def)
  with 1 show "0 < F" by linarith
  have "X * (4 * unit_roundoff) \<le> 3000 * (4 * unit_roundoff)"
    using X3 unit_roundoff_bounds by (intro mult_right_mono) auto
  with 1 show "X - 12000 * unit_roundoff \<le> F" by (simp add: algebra_simps)
  have "F \<le> of_int n * (spec_scale w h * (1 + unit_roundoff)) * (1 + unit_roundoff)^2"
    unfolding F_def by (rule mb(2))
  also have "\<dots> = X * (1 + unit_roundoff)^3"
    by (simp add: X_def power3_eq_cube power2_eq_square)
  also have "\<dots> \<le> X * (1 + 4 * unit_roundoff)"
    using Xpos cube_bounds by (intro mult_left_mono) auto
  finally have 2: "F \<le> X * (1 + 4 * unit_roundoff)" .
  have "X * (4 * unit_roundoff) \<le> 3000 * (4 * unit_roundoff)"
    using X3 unit_roundoff_bounds by (intro mult_right_mono) auto
  with 2 show "F \<le> X + 12000 * unit_roundoff" by (simp add: algebra_simps)
qed

lemma floor_gap:
  assumes M: "0 < M"
  shows "(3000 * of_int n / of_int M :: rat) + 1 / of_int M \<le> of_int \<lfloor>3000 * of_int n / of_int M :: rat\<rfloor> + 1"
proof -
  define k where "k = (3000 * n) div M"
  define r where "r = (3000 * n) mod M"
  have k: "\<lfloor>3000 * of_int n / of_int M :: rat\<rfloor> = k"
  proof -
    have "(3000 * of_int n / of_int M :: rat) = of_int (3000 * n) / of_int M" by simp
    then show ?thesis unfolding k_def by (simp only: floor_divide_of_int_eq)
  qed
  have r: "r + 1 \<le> M" using M by (simp add: r_def add1_zle_eq)
  have eq: "3000 * n = M * k + r" by (simp add: k_def r_def)
  have Mr: "(0::rat) < of_int M" using M by simp
  have "(3000 * of_int n :: rat) = of_int (M * k + r)" using eq by (metis of_int_mult of_int_numeral)
  then have "(3000 * of_int n / of_int M :: rat) + 1 / of_int M = (of_int (M * k) + of_int (r + 1)) / of_int M"
    by (simp add: add_divide_distrib)
  also have "\<dots> \<le> (of_int (M * k) + of_int M) / of_int M"
  proof -
    have "(of_int (r + 1) :: rat) \<le> of_int M" using r by (simp only: of_int_le_iff)
    then show ?thesis using Mr by (intro divide_right_mono add_left_mono) simp_all
  qed
  also have "\<dots> = of_int k + 1" using Mr by (simp add: field_simps)
  finally show ?thesis unfolding k .
qed

lemma scaled_dim:
  assumes w: "0 < w" and h: "0 < h" and n: "0 < n" and le: "n \<le> max w h"
  defines "F \<equiv> mul_int_float n (min (fl (3000 / of_int w)) (fl (3000 / of_int h)))"
  defines "X \<equiv> of_int n * spec_scale w h"
  shows "0 \<le> int_of_float F" and "int_of_float F \<le> 3000"
    and "\<lfloor>X\<rfloor> - 1 \<le> int_of_float F"
    and "max w h < 2 ^ 31 \<Longrightarrow> int_of_float F \<le> \<lfloor>X\<rfloor>"
proof -
  note pb = product_bounds[OF w h n le, folded F_def X_def]
  have d: "12000 * unit_roundoff < 1 / 2 ^ 39" by (simp add: unit_roundoff_def)
  have i: "int_of_float F = \<lfloor>F\<rfloor>" using pb(5) by (simp add: int_of_float_def)
  show "0 \<le> int_of_float F" using pb(5) unfolding i by simp
  have d1': "12000 * unit_roundoff < 1" by (simp add: unit_roundoff_def)
  have "F < 3001" using pb(2) pb(4) d1' by linarith
  then have "\<lfloor>F\<rfloor> < 3001" by (simp add: floor_less_iff)
  then show "int_of_float F \<le> 3000" unfolding i by simp
  have d1: "12000 * unit_roundoff < 1" by (simp add: unit_roundoff_def)
  have "of_int \<lfloor>X\<rfloor> \<le> X" by simp
  then have "of_int \<lfloor>X\<rfloor> - 1 \<le> F" using pb(1) d1 by linarith
  then have "of_int (\<lfloor>X\<rfloor> - 1) \<le> F" by simp
  then show "\<lfloor>X\<rfloor> - 1 \<le> int_of_float F" unfolding i by (simp only: le_floor_iff)
  show "int_of_float F \<le> \<lfloor>X\<rfloor>" if m: "max w h < 2 ^ 31"
  proof -
    define M where "M = max w h"
    have M: "0 < M" using w by (simp add: M_def)
    have Mr: "(0::rat) < of_int M" using M by simp
    have "(of_int M :: rat) < of_int (2 ^ 31)" using m unfolding M_def by (simp only: of_int_less_iff)
    then have "(of_int M :: rat) < 2 ^ 39" by simp
    then have "1 / 2 ^ 39 < 1 / (of_int M :: rat)" using Mr by (simp add: field_simps)
    then have dM: "12000 * unit_roundoff < 1 / (of_int M :: rat)" using d by linarith
    have X: "X = 3000 * of_int n / of_int M"
      using spec_scale_max[OF w h] by (simp add: X_def M_def)
    have "F < X + 1 / of_int M" using pb(2) dM by linarith
    also have "\<dots> \<le> of_int \<lfloor>X\<rfloor> + 1" unfolding X by (rule floor_gap[OF M])
    finally have "F < of_int (\<lfloor>X\<rfloor> + 1)" by simp
    then have "\<lfloor>F\<rfloor> < \<lfloor>X\<rfloor> + 1" by (simp only: floor_less_iff)
    then show ?thesis unfolding i by simp
  qed
qed

section \<open>What resize_image computes\<close>

lemma scaled_size_pos:
  assumes "0 < w" "0 < h"
  shows "scaled_size w h =
    Inr (int_of_float (mul_int_float w (min (fl (3000 / of_int w)) (fl (3000 / of_int h)))),
         int_of_float (mul_int_float h (min (fl (3000 / of_int w)) (fl (3000 / of_int h)))))"
  using assms by (simp add: scaled_size_def truediv_def TARGET_SIZE_def Let_def)

lemma scaled_size_zero:
  assumes "w = 0 \<or> h = 0"
  shows "scaled_size w h = Inl ZeroDivisionError"
  using assms by (auto simp: scaled_size_def truediv_def)


lemma compose_Inr:
  assumes "compose raises img = Inr cv"
  shows "cv_mode cv = (if use_transparent img then ''RGBA'' else ''RGB'')"
    and "cv_size cv = (TARGET_SIZE, TARGET_SIZE)"
    and "cv_fill cv = (if use_transparent img then [0, 0, 0, 0] else [0, 0, 0])"
    and "pasted_mode cv = cv_mode cv"
  using assms
  by (auto simp: compose_def Let_def split: sum.splits prod.splits if_splits)

lemma loop_count:
  "(case fst (process_files_loop raises st ps (s, f)) of (a, b) \<Rightarrow> a + b) = s + f + length ps"
proof (induction ps arbitrary: st s f)
  case Nil
  show ?case by simp
next
  case (Cons p ps)
  obtain ok st' where r: "process_file raises st p = (ok, st')"
    by (cases "process_file raises st p")
  show ?case
  proof (cases ok)
    case True
    then show ?thesis using r Cons.IH[of st' "s + 1" f] by simp
  next
    case False
    then show ?thesis using r Cons.IH[of st' s "f + 1"] by simp
  qed
qed

section \<open>The tallies of process_files\<close>

text \<open>
  C9. For every list of input paths, \<open>process_files\<close> returns a pair of a success count and a
  failure count whose sum is the length of the list: every path is counted exactly once,
  whatever the library does and whatever files earlier iterations wrote.
\<close>

theorem process_files_counts_every_path:
  "(case fst (process_files raises st file_paths) of
      (success_count, failure_count) \<Rightarrow> success_count + failure_count) = length file_paths"
  using loop_count[of raises st file_paths 0 0] by (simp add: process_files_def)

lemma image_open_positive:
  assumes "map_of fs p = Some (File (Some img))" and "0 < size_w img" and "0 < size_h img"
  shows "image_open fs p = Inr img"
  using assms by (simp add: image_open_def)

lemma resize_image_success:
  assumes f: "image_open (files st) p = Inr img"
    and c: "compose raises img = Inr cv"
    and s: "\<not> raises (Save out)" "\<not> isdir (files st) out"
    and o: "out = (case output_path of None \<Rightarrow> default_output p | Some q \<Rightarrow> q)"
  shows "resize_image raises st p output_path =
    (True, print (Resized p out) (st\<lparr>files := AList.update out (File (Some (saved cv))) (files st)\<rparr>))"
  using f c s by (simp add: resize_image_def try_resize_def o[symmetric] Let_def)

lemma files_print [simp]: "files (print m st) = files st"
  by (simp add: print_def)

section \<open>The canvas\<close>

text \<open>
  C1 at a 1 by 4000 image, positive in both dimensions: the scale is 0.75, the scaled width
  truncates to 0, \<^verbatim>\<open>resize\<close> raises on the size (0, 3000), and \<open>resize_image\<close> reports the
  error and returns failure. No canvas is composed and no file is written, where the claim
  promises a 3000 by 3000 canvas for every positive width and height.
\<close>

theorem thin_image_produces_no_canvas:
  "scaled_size 1 4000 = Inr (0, 3000)
   \<and> compose pillow_raises \<lparr>size_w = 1, size_h = 4000, mode = ''RGB'', info_transparency = False\<rparr>
       = Inl (LibraryError (Resize (0, 3000)))
   \<and> resize_image pillow_raises
        \<lparr>files = [([''d''], Dir),
                  ([''d'', ''thin.png''],
                   File (Some \<lparr>size_w = 1, size_h = 4000, mode = ''RGB'', info_transparency = False\<rparr>))],
         stdout = []\<rparr> [''d'', ''thin.png''] None
       = (False,
          \<lparr>files = [([''d''], Dir),
                    ([''d'', ''thin.png''],
                     File (Some \<lparr>size_w = 1, size_h = 4000, mode = ''RGB'', info_transparency = False\<rparr>))],
           stdout = [ErrorProcessing [''d'', ''thin.png''] (LibraryError (Resize (0, 3000)))]\<rparr>)"
  by code_simp

text \<open>
  Whenever both scaled sides are at least 1, the same library lets \<open>resize_image\<close> succeed,
  and the image it writes is 3000 by 3000.
\<close>

lemma resize_image_writes_target_square:
  assumes "map_of (files st) input_path = Some (File (Some img))"
    and "0 < size_w img" and "0 < size_h img"
    and "scaled_size (size_w img) (size_h img) = Inr (new_width, new_height)"
    and "1 \<le> new_width" and "1 \<le> new_height"
    and "out = (case output_path of None \<Rightarrow> default_output input_path | Some q \<Rightarrow> q)"
    and "\<not> isdir (files st) out"
  shows "\<exists>cv st' written.
           compose pillow_raises img = Inr cv \<and> cv_size cv = (3000, 3000) \<and>
           resize_image pillow_raises st input_path output_path = (True, st') \<and>
           map_of (files st') out = Some (File (Some written)) \<and>
           size_w written = 3000 \<and> size_h written = 3000"
proof -
  have c: "compose pillow_raises img =
    Inr \<lparr>cv_mode = (if use_transparent img then ''RGBA'' else ''RGB''),
         cv_size = (TARGET_SIZE, TARGET_SIZE),
         cv_fill = (if use_transparent img then [0, 0, 0, 0] else [0, 0, 0]),
         pasted_mode = (if use_transparent img then ''RGBA'' else ''RGB''),
         pasted_size = (new_width, new_height),
         offset = ((TARGET_SIZE - new_width) div 2, (TARGET_SIZE - new_height) div 2)\<rparr>"
    using assms(4,5,6) by (simp add: compose_def pillow_raises_def Let_def)
  have s: "\<not> pillow_raises (Save out)" by (simp add: pillow_raises_def)
  note r = resize_image_success[OF image_open_positive[OF assms(1,2,3)] c s assms(8) assms(7)]
  show ?thesis
    by (simp add: c r update_conv' saved_def TARGET_SIZE_def)
qed

section \<open>The scaled dimensions\<close>

lemma spec_le_target:
  assumes "0 < w" "0 < h"
  shows "spec_new_width w h \<le> 3000" and "spec_new_height w h \<le> 3000"
proof -
  have M: "(0::rat) < of_int (max w h)" using assms by simp
  have "(of_int w :: rat) \<le> of_int (max w h)" by simp
  then have "of_int w * spec_scale w h \<le> 3000"
    using M by (simp add: spec_scale_max[OF assms] field_simps)
  then have "\<lfloor>of_int w * spec_scale w h\<rfloor> < 3001" by (simp add: floor_less_iff)
  then show "spec_new_width w h \<le> 3000" by (simp add: spec_new_width_def)
  have "(of_int h :: rat) \<le> of_int (max w h)" by simp
  then have "of_int h * spec_scale w h \<le> 3000"
    using M by (simp add: spec_scale_max[OF assms] field_simps)
  then have "\<lfloor>of_int h * spec_scale w h\<rfloor> < 3001" by (simp add: floor_less_iff)
  then show "spec_new_height w h \<le> 3000" by (simp add: spec_new_height_def)
qed

text \<open>
  C2 at a 91 by 50 image. The claim gives the scaled dimensions as \<open>floor (w * scale)\<close> and
  \<open>floor (h * scale)\<close> with \<open>scale = min (target / w) (target / h)\<close>, which is the width 3000.
  The program computes 2999: \<open>3000 / 91\<close> is rounded down to a float, the product with 91 is
  the float just below 3000, and \<open>int\<close> truncates it.
\<close>

theorem scaled_size_differs_from_exact_formula:
  "scaled_size 91 50 = Inr (2999, 1648) \<and> spec_new_width 91 50 = 3000 \<and> spec_new_height 91 50 = 1648"
  by code_simp

text \<open>
  The shortfall is never more than one: for sizes below \<open>2 ^ 31\<close> each scaled dimension is the
  exact floor of the formula or one below it.
\<close>

lemma scaled_size_within_one_of_exact_formula:
  assumes "0 < w" and "w < 2 ^ 31" and "0 < h" and "h < 2 ^ 31"
  shows "\<exists>new_width new_height.
           scaled_size w h = Inr (new_width, new_height) \<and>
           spec_new_width w h - 1 \<le> new_width \<and> new_width \<le> spec_new_width w h \<and>
           spec_new_height w h - 1 \<le> new_height \<and> new_height \<le> spec_new_height w h"
proof -
  have m: "max w h < 2 ^ 31" using assms by simp
  have lw: "w \<le> max w h" and lh: "h \<le> max w h" by simp_all
  note dw = scaled_dim[OF assms(1) assms(3) assms(1) lw]
  note dh = scaled_dim[OF assms(1) assms(3) assms(3) lh]
  show ?thesis
    using dw(3) dw(4)[OF m] dh(3) dh(4)[OF m]
    by (simp add: scaled_size_pos[OF assms(1) assms(3)] spec_new_width_def spec_new_height_def)
qed

text \<open>
  C3 at a 182 by 100 image with no alpha channel: the width is the larger side, and the pasted
  image is 2999 wide, one pixel short of the target.
\<close>

theorem wide_image_misses_target_width:
  "compose (\<lambda>c. False) \<lparr>size_w = 182, size_h = 100, mode = ''RGB'', info_transparency = False\<rparr>
     = Inr \<lparr>cv_mode = ''RGB'', cv_size = (3000, 3000), cv_fill = [0, 0, 0], pasted_mode = ''RGB'',
            pasted_size = (2999, 1648), offset = (0, 676)\<rparr>"
  by code_simp




section \<open>The background\<close>

text \<open>
  C5. Whenever \<open>resize_image\<close> succeeds on a source image: if the mode of the image is RGBA or
  LA, or it is P with a transparency entry, then the canvas is RGBA, filled with fully
  transparent black, and the saved image is RGBA; otherwise the canvas is RGB, filled with
  black, and the saved image is RGB.
\<close>

theorem background_follows_source_alpha:
  assumes "map_of (files st) input_path = Some (File (Some img))"
    and "resize_image raises st input_path output_path = (True, st')"
    and "out = (case output_path of None \<Rightarrow> default_output input_path | Some q \<Rightarrow> q)"
  shows "\<exists>cv written.
           compose raises img = Inr cv \<and>
           map_of (files st') out = Some (File (Some written)) \<and>
           (if mode img = ''RGBA'' \<or> mode img = ''LA'' \<or> (mode img = ''P'' \<and> info_transparency img)
            then cv_mode cv = ''RGBA'' \<and> cv_fill cv = [0, 0, 0, 0] \<and> pasted_mode cv = ''RGBA''
                 \<and> mode written = ''RGBA''
            else cv_mode cv = ''RGB'' \<and> cv_fill cv = [0, 0, 0] \<and> pasted_mode cv = ''RGB''
                 \<and> mode written = ''RGB'')"
proof -
  from assms(2) obtain cv where c: "compose raises img = Inr cv"
    and s: "st' = print (Resized input_path out)
                   (st\<lparr>files := AList.update out (File (Some (saved cv))) (files st)\<rparr>)"
    by (auto simp: resize_image_def try_resize_def image_open_def assms(1) assms(3) Let_def
             split: sum.splits if_splits)
  have m: "map_of (files st') out = Some (File (Some (saved cv)))"
    by (simp add: s update_conv')
  show ?thesis
    using compose_Inr[OF c] m c by (auto simp: use_transparent_def saved_def)
qed

theorem background_follows_source_alpha_witness:
  "map_of (files \<lparr>files = [([''d''], Dir),
        ([''d'', ''a.png''], File (Some \<lparr>size_w = 500, size_h = 300, mode = ''LA'', info_transparency = False\<rparr>))],
        stdout = []\<rparr>) [''d'', ''a.png'']
     = Some (File (Some \<lparr>size_w = 500, size_h = 300, mode = ''LA'', info_transparency = False\<rparr>))
   \<and> (\<exists>cv written.
        compose (\<lambda>c. False) \<lparr>size_w = 500, size_h = 300, mode = ''LA'', info_transparency = False\<rparr> = Inr cv
      \<and> map_of (files (snd (resize_image (\<lambda>c. False) \<lparr>files = [([''d''], Dir),
        ([''d'', ''a.png''], File (Some \<lparr>size_w = 500, size_h = 300, mode = ''LA'', info_transparency = False\<rparr>))],
        stdout = []\<rparr> [''d'', ''a.png''] None))) [''d'', ''a_3000x3000.png'']
          = Some (File (Some written))
      \<and> cv_mode cv = ''RGBA'' \<and> cv_fill cv = [0, 0, 0, 0] \<and> pasted_mode cv = ''RGBA''
      \<and> mode written = ''RGBA'')"
proof -
  let ?img = "\<lparr>size_w = 500, size_h = 300, mode = ''LA'', info_transparency = False\<rparr>"
  let ?st = "\<lparr>files = [([''d''], Dir), ([''d'', ''a.png''], File (Some ?img))], stdout = []\<rparr>"
  let ?r = "resize_image (\<lambda>c. False) ?st [''d'', ''a.png''] None"
  have 1: "map_of (files ?st) [''d'', ''a.png''] = Some (File (Some ?img))" by simp
  have "fst ?r" by code_simp
  then have 2: "?r = (True, snd ?r)" by (cases ?r) simp
  have 3: "[''d'', ''a_3000x3000.png''] = (case None of None \<Rightarrow> default_output [''d'', ''a.png''] | Some q \<Rightarrow> q)"
    by code_simp
  have 4: "mode ?img = ''RGBA'' \<or> mode ?img = ''LA'' \<or> (mode ?img = ''P'' \<and> info_transparency ?img)"
    by simp
  from background_follows_source_alpha[OF 1 2 3] 4 1 show ?thesis by auto
qed

section \<open>Zero sizes\<close>

text \<open>
  C7. Every input whose decoded width or height is zero is rejected by \<^verbatim>\<open>Image.open\<close> at
  line 38, before the scale factor of line 44 is computed: the failure is the decode error,
  \<open>resize_image\<close> reports the file, writes nothing and returns failure, and \<open>process_files\<close>
  counts the file as a failure. The division of line 44 raises on a zero size as well, so
  no scaled size is ever computed from one.
\<close>

theorem zero_size_is_rejected:
  assumes "map_of (files st) input_path = Some (File (Some img))"
    and "size_w img = 0 \<or> size_h img = 0"
  shows "image_open (files st) input_path = Inl OpenError \<and>
         try_resize raises (files st) input_path output_path = Inl OpenError \<and>
         resize_image raises st input_path output_path
           = (False, print (ErrorProcessing input_path OpenError) st) \<and>
         (if is_supported_image input_path
          then process_files raises st [input_path]
                 = ((0, 1), print (ErrorProcessing input_path OpenError) st)
          else process_files raises st [input_path]
                 = ((0, 1), print (UnsupportedFormat input_path) st)) \<and>
         scaled_size (size_w img) (size_h img) = Inl ZeroDivisionError"
proof -
  have o: "image_open (files st) input_path = Inl OpenError"
    using assms by (auto simp: image_open_def)
  have t: "try_resize raises (files st) input_path out = Inl OpenError" for out
    by (simp add: try_resize_def o)
  have r: "resize_image raises st input_path out
             = (False, print (ErrorProcessing input_path OpenError) st)" for out
    by (simp add: resize_image_def t)
  have f: "isfile (files st) input_path" by (simp add: isfile_def assms(1))
  show ?thesis
    by (simp add: o t r f scaled_size_zero[OF assms(2)] process_files_def process_file_def)
qed

theorem zero_size_is_rejected_witness:
  "map_of (files \<lparr>files = [([''d''], Dir),
        ([''d'', ''z.gif''], File (Some \<lparr>size_w = 0, size_h = 7, mode = ''P'', info_transparency = False\<rparr>))],
        stdout = []\<rparr>) [''d'', ''z.gif'']
     = Some (File (Some \<lparr>size_w = 0, size_h = 7, mode = ''P'', info_transparency = False\<rparr>))
   \<and> is_supported_image [''d'', ''z.gif'']
   \<and> image_open [([''d''], Dir),
        ([''d'', ''z.gif''], File (Some \<lparr>size_w = 0, size_h = 7, mode = ''P'', info_transparency = False\<rparr>))]
        [''d'', ''z.gif''] = Inl OpenError
   \<and> process_files (\<lambda>c. False) \<lparr>files = [([''d''], Dir),
        ([''d'', ''z.gif''], File (Some \<lparr>size_w = 0, size_h = 7, mode = ''P'', info_transparency = False\<rparr>))],
        stdout = []\<rparr> [[''d'', ''z.gif'']]
     = ((0, 1), \<lparr>files = [([''d''], Dir),
        ([''d'', ''z.gif''], File (Some \<lparr>size_w = 0, size_h = 7, mode = ''P'', info_transparency = False\<rparr>))],
        stdout = [ErrorProcessing [''d'', ''z.gif''] OpenError]\<rparr>)"
proof -
  let ?img = "\<lparr>size_w = 0, size_h = 7, mode = ''P'', info_transparency = False\<rparr>"
  let ?st = "\<lparr>files = [([''d''], Dir), ([''d'', ''z.gif''], File (Some ?img))], stdout = []\<rparr>"
  have 1: "map_of (files ?st) [''d'', ''z.gif''] = Some (File (Some ?img))" by simp
  have 2: "size_w ?img = 0 \<or> size_h ?img = 0" by simp
  have 3: "is_supported_image [''d'', ''z.gif'']" by code_simp
  from zero_size_is_rejected[OF 1 2, of "\<lambda>c. False" None] 1 3 show ?thesis
    by (simp add: print_def)
qed

section \<open>Missing inputs\<close>

text \<open>
  C8. A single-file path that is not an existing file is reported by \<open>process_file\<close>, which
  returns failure, and the loop of \<open>process_files\<close> adds one to the failure tally for it.
  A batch path that is not an existing directory makes \<open>process_folder\<close> return exactly
  (0, 0), and the batch loop of \<open>main\<close> leaves both tallies as they were.
\<close>

theorem missing_inputs_are_tallied:
  "(\<not> isfile (files st) file_path \<longrightarrow>
      process_file raises st file_path = (False, print (FileNotFound file_path) st) \<and>
      process_files_loop raises st (file_path # rest) (successes, failures)
        = process_files_loop raises (print (FileNotFound file_path) st) rest
            (successes, failures + 1)) \<and>
   (\<not> isdir (files st) folder_path \<longrightarrow>
      process_folder raises st folder_path recursive
        = ((0, 0), print (FolderNotFound folder_path) st) \<and>
      batch_loop raises st (folder_path # folders) recursive (successes, failures)
        = batch_loop raises (print (FolderNotFound folder_path) st) folders recursive
            (successes, failures))"
  by (simp add: process_file_def process_folder_def)

theorem missing_inputs_are_tallied_witness:
  "\<not> isfile (files \<lparr>files = [([''d''], Dir)], stdout = []\<rparr>) [''nonexistent'', ''file.jpg'']
   \<and> \<not> isdir (files \<lparr>files = [([''d''], Dir)], stdout = []\<rparr>) [''nonexistent'', ''folder'']
   \<and> process_files (\<lambda>c. False) \<lparr>files = [([''d''], Dir)], stdout = []\<rparr> [[''nonexistent'', ''file.jpg'']]
       = ((0, 1), \<lparr>files = [([''d''], Dir)], stdout = [FileNotFound [''nonexistent'', ''file.jpg'']]\<rparr>)
   \<and> process_folder (\<lambda>c. False) \<lparr>files = [([''d''], Dir)], stdout = []\<rparr> [''nonexistent'', ''folder''] False
       = ((0, 0), \<lparr>files = [([''d''], Dir)], stdout = [FolderNotFound [''nonexistent'', ''folder'']]\<rparr>)"
proof -
  let ?st = "\<lparr>files = [([''d''], Dir)], stdout = []\<rparr>"
  have 1: "\<not> isfile (files ?st) [''nonexistent'', ''file.jpg'']" by (simp add: isfile_def)
  have 2: "\<not> isdir (files ?st) [''nonexistent'', ''folder'']" by (simp add: isdir_def)
  from missing_inputs_are_tallied[of ?st "[''nonexistent'', ''file.jpg'']" "\<lambda>c. False" "[]" 0 0
         "[''nonexistent'', ''folder'']" False "[]"] 1 2
  show ?thesis by (simp add: process_files_def print_def)
qed

section \<open>File discovery in batch mode\<close>

text \<open>
  C6 at a directory whose only entry is the file \<open>A.JPG\<close>, a decodable 4000 by 2000 image.
  \<open>is_supported_image\<close> accepts the path and \<open>process_file\<close> resizes it, but the patterns of
  \<open>process_folder\<close> are lower-case and match case-sensitively: in both modes nothing is
  found, and the folder is reported as holding no supported image.
\<close>

theorem uppercase_extension_is_not_discovered:
  "is_supported_image [''d'', ''A.JPG'']
   \<and> spec_discovered [([''d''], Dir),
        ([''d'', ''A.JPG''], File (Some \<lparr>size_w = 4000, size_h = 2000, mode = ''RGB'', info_transparency = False\<rparr>))]
        [''d''] False = [[''d'', ''A.JPG'']]
   \<and> find_images [([''d''], Dir),
        ([''d'', ''A.JPG''], File (Some \<lparr>size_w = 4000, size_h = 2000, mode = ''RGB'', info_transparency = False\<rparr>))]
        [''d''] False = []
   \<and> find_images [([''d''], Dir),
        ([''d'', ''A.JPG''], File (Some \<lparr>size_w = 4000, size_h = 2000, mode = ''RGB'', info_transparency = False\<rparr>))]
        [''d''] True = []
   \<and> fst (process_folder (\<lambda>c. False) \<lparr>files = [([''d''], Dir),
        ([''d'', ''A.JPG''], File (Some \<lparr>size_w = 4000, size_h = 2000, mode = ''RGB'', info_transparency = False\<rparr>))],
        stdout = []\<rparr> [''d''] False) = (0, 0)
   \<and> stdout (snd (process_folder (\<lambda>c. False) \<lparr>files = [([''d''], Dir),
        ([''d'', ''A.JPG''], File (Some \<lparr>size_w = 4000, size_h = 2000, mode = ''RGB'', info_transparency = False\<rparr>))],
        stdout = []\<rparr> [''d''] False)) = [NoSupportedImages [''d'']]
   \<and> fst (process_file (\<lambda>c. False) \<lparr>files = [([''d''], Dir),
        ([''d'', ''A.JPG''], File (Some \<lparr>size_w = 4000, size_h = 2000, mode = ''RGB'', info_transparency = False\<rparr>))],
        stdout = []\<rparr> [''d'', ''A.JPG''])"
  by code_simp

text \<open>
  C10, as stated: an existing directory without any file of a supported extension gives (0, 0).
  A directory whose only entry is a subdirectory named \<open>x.jpg\<close> holds no file at all, yet the
  pattern matches the subdirectory, \<open>resize_image\<close> fails on it, and the result is (0, 1).
\<close>

theorem directory_entry_is_counted_as_failure:
  "isdir [([''d''], Dir), ([''d'', ''x.jpg''], Dir)] [''d'']
   \<and> filter (isfile [([''d''], Dir), ([''d'', ''x.jpg''], Dir)])
        (map fst [([''d''], Dir), ([''d'', ''x.jpg''], Dir)]) = []
   \<and> spec_discovered [([''d''], Dir), ([''d'', ''x.jpg''], Dir)] [''d''] False = []
   \<and> process_folder (\<lambda>c. False) \<lparr>files = [([''d''], Dir), ([''d'', ''x.jpg''], Dir)], stdout = []\<rparr>
        [''d''] False
      = ((0, 1), \<lparr>files = [([''d''], Dir), ([''d'', ''x.jpg''], Dir)],
                  stdout = [Found 1, ErrorProcessing [''d'', ''x.jpg''] OpenError]\<rparr>)"
  by code_simp

text \<open>
  A name that is nothing but an extension has an empty \<open>suffix\<close>, yet the pattern matches it:
  what decides discovery is how the name ends.
\<close>

lemma bare_extension_name_is_discovered:
  "\<not> is_supported_image [''d'', ''.png'']
   \<and> find_images [([''d''], Dir), ([''d'', ''.png''], File None)] [''d''] False = [[''d'', ''.png'']]"
  by code_simp

lemma lower_length [simp]: "length (lower s) = length s"
  by (simp add: lower_def)

lemma lower_supported:
  assumes "ext \<in> set SUPPORTED_FORMATS"
  shows "lower ext = ext"
proof -
  have "\<forall>e \<in> set SUPPORTED_FORMATS. lower e = e" by code_simp
  with assms show ?thesis by blast
qed

lemma endswith_lower:
  assumes "endswith s ext" and "ext \<in> set SUPPORTED_FORMATS"
  shows "endswith (lower s) ext"
proof -
  from assms(1) have l: "length ext \<le> length s"
    and d: "drop (length s - length ext) s = ext"
    by (simp_all add: endswith_def)
  have "drop (length s - length ext) (lower s) = lower (drop (length s - length ext) s)"
    by (simp add: lower_def drop_map)
  also have "\<dots> = ext" using d lower_supported[OF assms(2)] by simp
  finally show ?thesis using l by (simp add: endswith_def)
qed

lemma find_images_empty:
  assumes "\<forall>p \<in> set (map fst fs). in_scope folder recursive p \<longrightarrow>
             (\<forall>ext \<in> set SUPPORTED_FORMATS. \<not> endswith (lower (last p)) ext)"
  shows "find_images fs folder recursive = []"
proof -
  have "\<not> endswith (last p) ext"
    if "p \<in> set (map fst fs)" "in_scope folder recursive p" "ext \<in> set SUPPORTED_FORMATS"
    for p ext
    using assms that endswith_lower[of "last p" ext] by blast
  then have H: "\<forall>p \<in> set (map fst fs). \<forall>ext \<in> set SUPPORTED_FORMATS.
                  in_scope folder recursive p \<longrightarrow> \<not> endswith (last p) ext"
    by blast
  show ?thesis
  proof (cases recursive)
    case True
    have "rglob fs folder ext = []" if "ext \<in> set SUPPORTED_FORMATS" for ext
      unfolding rglob_def filter_empty_conv
      using H that True by (auto simp: in_scope_def)
    then show ?thesis using True by (simp add: find_images_def)
  next
    case False
    have "glob fs folder ext = []" if "ext \<in> set SUPPORTED_FORMATS" for ext
      unfolding glob_def filter_empty_conv
      using H that False by (auto simp: in_scope_def)
    then show ?thesis using False by (simp add: find_images_def)
  qed
qed

text \<open>
  C10, amended. For every existing directory that contains no entry, file or subdirectory,
  whose name ends with a supported extension, compared case-insensitively (among the direct
  children, or in recursive mode anywhere below), \<open>process_folder\<close> returns exactly (0, 0);
  the batch loop of \<open>main\<close> leaves both tallies as they were and the exit code is 0, as
  for a directory that does not exist.
\<close>

theorem folder_without_matching_entries_gives_zero:
  assumes "isdir (files st) folder_path"
    and "\<forall>p \<in> set (map fst (files st)). in_scope folder_path recursive p \<longrightarrow>
           (\<forall>ext \<in> set SUPPORTED_FORMATS. \<not> endswith (lower (last p)) ext)"
  shows "process_folder raises st folder_path recursive
           = ((0, 0), print (NoSupportedImages folder_path) st) \<and>
         batch_loop raises st (folder_path # folders) recursive (successes, failures)
           = batch_loop raises (print (NoSupportedImages folder_path) st) folders recursive
               (successes, failures) \<and>
         fst (main raises st [folder_path] True recursive) = 0"
  using assms(1) find_images_empty[OF assms(2)]
  by (simp add: process_folder_def main_def)

theorem folder_without_matching_entries_gives_zero_witness:
  "isdir (files \<lparr>files = [([''d''], Dir), ([''d'', ''notes.txt''], File None),
                          ([''d'', ''sub''], Dir), ([''d'', ''sub'', ''README.MD''], File None)],
                 stdout = []\<rparr>) [''d'']
   \<and> process_folder (\<lambda>c. False)
        \<lparr>files = [([''d''], Dir), ([''d'', ''notes.txt''], File None),
                  ([''d'', ''sub''], Dir), ([''d'', ''sub'', ''README.MD''], File None)],
         stdout = []\<rparr> [''d''] True
      = ((0, 0), \<lparr>files = [([''d''], Dir), ([''d'', ''notes.txt''], File None),
                  ([''d'', ''sub''], Dir), ([''d'', ''sub'', ''README.MD''], File None)],
                  stdout = [NoSupportedImages [''d'']]\<rparr>)"
proof -
  let ?st = "\<lparr>files = [([''d''], Dir), ([''d'', ''notes.txt''], File None),
                  ([''d'', ''sub''], Dir), ([''d'', ''sub'', ''README.MD''], File None)],
             stdout = []\<rparr>"
  have 1: "isdir (files ?st) [''d'']" by (simp add: isdir_def)
  have 2: "\<forall>p \<in> set (map fst (files ?st)). in_scope [''d''] True p \<longrightarrow>
           (\<forall>ext \<in> set SUPPORTED_FORMATS. \<not> endswith (lower (last p)) ext)"
    by code_simp
  from folder_without_matching_entries_gives_zero[OF 1 2, of "\<lambda>c. False" "[]" 0 0] 1
  show ?thesis by (simp add: print_def)
qed

text \<open>
  The folder whose only entry is \<open>A.JPG\<close> is outside this statement: its entry ends with a
  supported extension once case is ignored.
\<close>

lemma uppercase_entry_matches_ignoring_case:
  "endswith (lower (last [''d'', ''A.JPG''])) ''.jpg'' \<and> ''.jpg'' \<in> set SUPPORTED_FORMATS"
  by code_simp

end
